theory Spec2Isabelle
  imports Main "HOL-Library.AList" "HOL-Library.Word"
begin

section \<open>The flow editor of syndesis-ui: data model\<close>

text \<open>
  The development embeds two files of the repository:
  \<^item> \<^verbatim>\<open>src/app/integrations/edit-page/current-flow.service.ts\<close> (class \<^verbatim>\<open>CurrentFlow\<close>):
    the in-memory integration being edited, its positional queries and its command
    handler \<^verbatim>\<open>handleEvent\<close>;
  \<^item> \<^verbatim>\<open>src/app/store/step/step.store.ts\<close> (class \<^verbatim>\<open>StepStore\<close>): the catalogue of step
    kinds with the visibility predicate of the data mapper.

  JavaScript values are modelled as follows. \<^verbatim>\<open>undefined\<close> and \<^verbatim>\<open>null\<close> of an optional
  field are \<open>None\<close>. A thrown exception is \<open>Inl\<close> of an \<open>error\<close>. A method that
  mutates the service returns the new state next to its result. Positions are JavaScript
  numbers obtained by \<^verbatim>\<open>+event['position']\<close>; the model takes them to be integers
  (\<open>int\<close>), negative ones included.
\<close>

subsection \<open>JavaScript values\<close>

text \<open>
  Payloads of events are \<^verbatim>\<open>any\<close> in the source. The model has the values that JSON
  data is made of and, next to them, the values that \<^verbatim>\<open>JSON.stringify\<close> treats
  specially: \<^verbatim>\<open>undefined\<close>, functions, \<^verbatim>\<open>NaN\<close>, the two infinities and negative zero.
  A finite number is an integer from \<open>-2^53\<close> up to \<open>2^53 - 1\<close>, the range in which
  every integer is a JavaScript number and is printed in decimal digits; it is held as a
  signed word of 54 bits to bound the range, and no arithmetic is done on it. Fractions
  and larger numbers are outside the model, as are values with a \<^verbatim>\<open>toJSON\<close> method
  (dates), symbols, and the values that \<^verbatim>\<open>JSON.stringify\<close> refuses (cycles,
  \<^verbatim>\<open>BigInt\<close>). Strings are sequences of 8-bit characters, and an object is the list of
  its properties in enumeration order.
\<close>

datatype number = Finite "54 word" | NegZero | NaN | PosInfinity | NegInfinity

datatype jsvalue =
    JUndefined
  | JNull
  | JBool bool
  | JNum number
  | JStr string
  | JArr "jsvalue list"
  | JObj "(string \<times> jsvalue) list"
  | JFunction

text \<open>
  The exceptions that the modelled code can throw. \<open>NotModelled\<close> is not an exception:
  it marks the one input on which the model says nothing about the code (see
  \<open>setProperty\<close>).
\<close>

datatype error = TypeError | SyntaxError | NotModelled

subsection \<open>The model classes\<close>

text \<open>
  The module \<^verbatim>\<open>../../model\<close> that declares \<^verbatim>\<open>Action\<close>, \<^verbatim>\<open>Connection\<close>, \<^verbatim>\<open>Step\<close>,
  \<^verbatim>\<open>Integration\<close> and \<^verbatim>\<open>TypeFactory\<close> is not part of the two files; the records below
  have the fields that the two files read and write.
\<close>

datatype DataShape = DataShape (shape_kind: string) (shape_type: string)

record Action =
  action_name :: string
  inputDataShape :: "DataShape option"
  outputDataShape :: "DataShape option"

record Connection =
  connection_name :: string
  connectorId :: string

record Step =
  step_id :: "string option"
  stepKind :: "string option"
  connection :: "Connection option"
  action :: "Action option"
  configuredProperties :: "jsvalue option"

text \<open>
  A JavaScript array of steps is a list of slots; \<open>None\<close> is a hole, which an assignment
  past the end of the array leaves behind. The \<^verbatim>\<open>tags\<close> array is the one object that
  the save handler mutates through a reference read from another object, so arrays of
  tags live in a store and the integration holds an address. Every other top-level
  property of the integration (\<^verbatim>\<open>name\<close>, \<^verbatim>\<open>configuredProperties\<close>, ...) is an entry of
  \<open>other\<close>.
\<close>

type_synonym addr = nat

record Integration =
  steps :: "Step option list option"
  tags :: "addr option"
  other :: "(string \<times> jsvalue) list"

text \<open>
  The service: \<^verbatim>\<open>_integration\<close>, \<^verbatim>\<open>_loaded\<close> (an Isabelle name cannot start with an
  underscore), and the store of tag arrays, addressed by index.
\<close>

record state =
  priv_integration :: "Integration option"
  priv_loaded :: bool
  heap :: "string list list"

text \<open>
  Modelled from the spec: \<^verbatim>\<open>TypeFactory.createStep()\<close> of the absent model module, the
  "blank placeholder" step: every field is absent.
\<close>

definition createStep :: Step where
  "createStep =
     \<lparr>step_id = None, stepKind = None, connection = None, action = None,
      configuredProperties = None\<rparr>"

section \<open>JavaScript arrays\<close>

text \<open>
  \<^verbatim>\<open>slice\<close> and \<^verbatim>\<open>splice\<close> clamp a relative index: a negative one counts from the end and
  stops at 0, a positive one stops at the length.
\<close>

definition relative_index :: "int \<Rightarrow> nat \<Rightarrow> nat" where
  "relative_index k len = (if k < 0 then nat (max (int len + k) 0) else min (nat k) len)"

definition array_slice :: "'a list \<Rightarrow> int \<Rightarrow> int \<Rightarrow> 'a list" where
  \<comment> \<open>\<^verbatim>\<open>xs.slice(from, to)\<close>\<close>
  "array_slice xs from to =
     (let k = relative_index from (length xs); e = relative_index to (length xs)
      in take (e - k) (drop k xs))"

definition array_slice_from :: "'a list \<Rightarrow> int \<Rightarrow> 'a list" where
  \<comment> \<open>\<^verbatim>\<open>xs.slice(from)\<close>\<close>
  "array_slice_from xs from = drop (relative_index from (length xs)) xs"

definition array_splice :: "'a list \<Rightarrow> int \<Rightarrow> nat \<Rightarrow> 'a list \<Rightarrow> 'a list" where
  \<comment> \<open>the array after \<^verbatim>\<open>xs.splice(start, deleteCount, ...items)\<close>\<close>
  "array_splice xs start deleteCount items =
     (let k = relative_index start (length xs);
          d = min deleteCount (length xs - k)
      in take k xs @ items @ drop (k + d) xs)"

definition array_set :: "'a option list \<Rightarrow> nat \<Rightarrow> 'a \<Rightarrow> 'a option list" where
  \<comment> \<open>the array after \<^verbatim>\<open>xs[i] = v\<close>, for an index \<open>i \<ge> 0\<close>: a write past the end extends
      the array and leaves holes\<close>
  "array_set xs i v =
     (if i < length xs then xs[i := Some v]
      else xs @ replicate (i - length xs) None @ [Some v])"

definition array_filter :: "('a \<Rightarrow> bool) \<Rightarrow> 'a option list \<Rightarrow> 'a list" where
  \<comment> \<open>\<^verbatim>\<open>xs.filter(p)\<close>: holes are not visited and not copied\<close>
  "array_filter p xs = filter p (List.map_filter (\<lambda>x. x) xs)"

section \<open>Accessors and positional queries of CurrentFlow\<close>

definition integration_get :: "state \<Rightarrow> Integration option" where
  \<comment> \<open>\<^verbatim>\<open>get integration()\<close>\<close>
  "integration_get st = priv_integration st"

definition steps_get :: "state \<Rightarrow> Step option list option \<times> state" where
  \<comment> \<open>\<^verbatim>\<open>get steps()\<close>: an absent \<^verbatim>\<open>steps\<close> is initialised to the empty array\<close>
  "steps_get st =
     (case priv_integration st of
        None \<Rightarrow> (None, st)
      | Some i \<Rightarrow>
          (case steps i of
             None \<Rightarrow> (Some [], st\<lparr>priv_integration := Some (i\<lparr>steps := Some []\<rparr>)\<rparr>)
           | Some xs \<Rightarrow> (Some xs, st)))"

definition steps_put :: "Step option list \<Rightarrow> state \<Rightarrow> state" where
  \<comment> \<open>the state after an in-place mutation of the array that \<^verbatim>\<open>this.steps\<close> returned\<close>
  "steps_put xs st =
     (case priv_integration st of
        None \<Rightarrow> st
      | Some i \<Rightarrow> st\<lparr>priv_integration := Some (i\<lparr>steps := Some xs\<rparr>)\<rparr>)"

definition getFirstPosition :: "state \<Rightarrow> int option" where
  "getFirstPosition st = (case integration_get st of None \<Rightarrow> None | Some _ \<Rightarrow> Some 0)"

definition getLastPosition :: "state \<Rightarrow> int option \<times> state" where
  "getLastPosition st =
     (case integration_get st of
        None \<Rightarrow> (None, st)
      | Some _ \<Rightarrow>
          (case steps_get st of
             (None, st') \<Rightarrow> (None, st')
           | (Some xs, st') \<Rightarrow>
               if length xs \<le> 1 then (Some 1, st')
               else (Some (int (length xs) - 1), st')))"

definition getSubsequentSteps :: "int \<Rightarrow> state \<Rightarrow> Step option list option \<times> state" where
  "getSubsequentSteps position st =
     (case priv_integration st of
        None \<Rightarrow> (None, st)
      | Some i \<Rightarrow>
          (let xs = (case steps i of None \<Rightarrow> [] | Some ys \<Rightarrow> ys)
           in (Some (array_slice_from xs position),
               st\<lparr>priv_integration := Some (i\<lparr>steps := Some xs\<rparr>)\<rparr>)))"

definition getSubsequentConnections :: "int \<Rightarrow> state \<Rightarrow> Step list option \<times> state" where
  "getSubsequentConnections position st =
     (case getSubsequentSteps position st of
        (Some answer, st') \<Rightarrow> (Some (array_filter (\<lambda>s. stepKind s = Some ''endpoint'') answer), st')
      | (None, st') \<Rightarrow> (None, st'))"

definition getPreviousSteps :: "int \<Rightarrow> state \<Rightarrow> Step option list option \<times> state" where
  "getPreviousSteps position st =
     (case priv_integration st of
        None \<Rightarrow> (None, st)
      | Some i \<Rightarrow>
          (let xs = (case steps i of None \<Rightarrow> [] | Some ys \<Rightarrow> ys)
           in (Some (array_slice xs 0 position),
               st\<lparr>priv_integration := Some (i\<lparr>steps := Some xs\<rparr>)\<rparr>)))"

definition getPreviousConnections :: "int \<Rightarrow> state \<Rightarrow> Step list option \<times> state" where
  "getPreviousConnections position st =
     (case getPreviousSteps position st of
        (Some answer, st') \<Rightarrow> (Some (array_filter (\<lambda>s. stepKind s = Some ''endpoint'') answer), st')
      | (None, st') \<Rightarrow> (None, st'))"

text \<open>
  \<^verbatim>\<open>connections[0]\<close> of an array is \<^verbatim>\<open>undefined\<close> when the array is empty; on
  \<^verbatim>\<open>null\<close>, both \<^verbatim>\<open>.reverse()\<close> and \<^verbatim>\<open>[0]\<close> throw a \<^verbatim>\<open>TypeError\<close>.
\<close>

definition first_element :: "'a list \<Rightarrow> 'a option" where
  "first_element xs = (case xs of [] \<Rightarrow> None | x # _ \<Rightarrow> Some x)"

definition getPreviousConnection :: "int \<Rightarrow> state \<Rightarrow> (error + Step option) \<times> state" where
  "getPreviousConnection position st =
     (case getPreviousConnections position st of
        (None, st') \<Rightarrow> (Inl TypeError, st')
      | (Some cs, st') \<Rightarrow> (Inr (first_element (rev cs)), st'))"

definition getSubsequentConnection :: "int \<Rightarrow> state \<Rightarrow> (error + Step option) \<times> state" where
  "getSubsequentConnection position st =
     (case getSubsequentConnections position st of
        (None, st') \<Rightarrow> (Inl TypeError, st')
      | (Some cs, st') \<Rightarrow> (Inr (first_element cs), st'))"

section \<open>Serialisation and normalisation of property values\<close>

text \<open>
  \<^verbatim>\<open>JSON.stringify\<close> without indentation. \<open>JSON_text\<close> is the text of a value that
  stands in an array or as a member of an object: decimal digits for a finite number,
  \<^verbatim>\<open>null\<close> for \<^verbatim>\<open>NaN\<close> and the infinities, a quoted and escaped string, elements and
  members separated by commas. In an array \<^verbatim>\<open>undefined\<close> and a function are written
  \<^verbatim>\<open>null\<close>; in an object a member with such a value is left out. At top level
  \<^verbatim>\<open>JSON.stringify\<close> of \<^verbatim>\<open>undefined\<close> or of a function is \<^verbatim>\<open>undefined\<close>, which is
  \<open>None\<close> here.
\<close>

definition digit_char :: "nat \<Rightarrow> char" where
  "digit_char d = ''0123456789'' ! d"

fun decimal :: "nat \<Rightarrow> string" where
  "decimal n = (if n < 10 then [digit_char n] else decimal (n div 10) @ [digit_char (n mod 10)])"

declare decimal.simps [simp del]

definition number_to_string :: "54 word \<Rightarrow> string" where
  "number_to_string w =
     (if sint w < 0 then CHR ''-'' # decimal (nat (- sint w)) else decimal (nat (sint w)))"

definition hex_char :: "nat \<Rightarrow> char" where
  "hex_char d = ''0123456789abcdef'' ! d"

definition quote_char :: "char \<Rightarrow> string" where
  "quote_char c =
     (if c = CHR 0x22 then [CHR 0x5C, CHR 0x22]
      else if c = CHR 0x5C then [CHR 0x5C, CHR 0x5C]
      else if c = CHR 0x08 then [CHR 0x5C, CHR ''b'']
      else if c = CHR 0x0C then [CHR 0x5C, CHR ''f'']
      else if c = CHR 0x0A then [CHR 0x5C, CHR ''n'']
      else if c = CHR 0x0D then [CHR 0x5C, CHR ''r'']
      else if c = CHR 0x09 then [CHR 0x5C, CHR ''t'']
      else if (of_char c :: nat) < 32
        then [CHR 0x5C, CHR ''u'', CHR ''0'', CHR ''0'',
              hex_char (of_char c div 16), hex_char (of_char c mod 16)]
      else [c])"

definition json_quote :: "string \<Rightarrow> string" where
  "json_quote s = CHR 0x22 # concat (map quote_char s) @ [CHR 0x22]"

fun join :: "string \<Rightarrow> string list \<Rightarrow> string" where
  "join sep [] = []"
| "join sep [x] = x"
| "join sep (x # y # ys) = x @ sep @ join sep (y # ys)"

fun omitted :: "jsvalue \<Rightarrow> bool" where
  \<comment> \<open>the values for which \<^verbatim>\<open>JSON.stringify\<close> has no text\<close>
  "omitted JUndefined = True"
| "omitted JFunction = True"
| "omitted _ = False"

fun JSON_text :: "jsvalue \<Rightarrow> string" where
  "JSON_text JUndefined = ''null''"
| "JSON_text JFunction = ''null''"
| "JSON_text JNull = ''null''"
| "JSON_text (JBool b) = (if b then ''true'' else ''false'')"
| "JSON_text (JNum (Finite w)) = number_to_string w"
| "JSON_text (JNum NegZero) = ''0''"
| "JSON_text (JNum _) = ''null''"
| "JSON_text (JStr s) = json_quote s"
| "JSON_text (JArr xs) = ''['' @ join '','' (map JSON_text xs) @ '']''"
| "JSON_text (JObj ps) =
     ''{'' @ join '',''
        (map (\<lambda>(k, v). json_quote k @ '':'' @ JSON_text v)
           (filter (\<lambda>(k, v). \<not> omitted v) ps)) @ ''}''"

definition JSON_stringify :: "jsvalue \<Rightarrow> string option" where
  "JSON_stringify v = (if omitted v then None else Some (JSON_text v))"

text \<open>
  \<^verbatim>\<open>JSON.parse(JSON.stringify(v))\<close> builds a fresh value from the text: \<open>jsonClone\<close> is
  the value read back for a value that stands in an array or as a member of an object.
  \<^verbatim>\<open>NaN\<close> and the infinities come back as \<^verbatim>\<open>null\<close>, negative zero as zero, an array
  element \<^verbatim>\<open>undefined\<close> as \<^verbatim>\<open>null\<close>, and a member of an object whose value is
  \<^verbatim>\<open>undefined\<close> or a function does not come back. At top level, \<^verbatim>\<open>JSON.parse\<close> of
  the \<^verbatim>\<open>undefined\<close> that \<^verbatim>\<open>JSON.stringify\<close> returns throws a \<^verbatim>\<open>SyntaxError\<close>.
\<close>

fun jsonClone :: "jsvalue \<Rightarrow> jsvalue" where
  "jsonClone JUndefined = JNull"
| "jsonClone JFunction = JNull"
| "jsonClone JNull = JNull"
| "jsonClone (JBool b) = JBool b"
| "jsonClone (JNum (Finite w)) = JNum (Finite w)"
| "jsonClone (JNum NegZero) = JNum (Finite 0)"
| "jsonClone (JNum _) = JNull"
| "jsonClone (JStr s) = JStr s"
| "jsonClone (JArr xs) = JArr (map jsonClone xs)"
| "jsonClone (JObj ps) =
     JObj (map (\<lambda>(k, v). (k, jsonClone v)) (filter (\<lambda>(k, v). \<not> omitted v) ps))"

definition JSON_roundtrip :: "jsvalue \<Rightarrow> error + jsvalue" where
  "JSON_roundtrip v = (if omitted v then Inl SyntaxError else Inr (jsonClone v))"

fun typeof :: "jsvalue \<Rightarrow> string" where
  "typeof JUndefined = ''undefined''"
| "typeof JNull = ''object''"
| "typeof (JBool _) = ''boolean''"
| "typeof (JNum _) = ''number''"
| "typeof (JStr _) = ''string''"
| "typeof (JArr _) = ''object''"
| "typeof (JObj _) = ''object''"
| "typeof JFunction = ''function''"

fun truthy :: "jsvalue \<Rightarrow> bool" where
  "truthy JUndefined = False"
| "truthy JNull = False"
| "truthy (JBool b) = b"
| "truthy (JNum (Finite w)) = (w \<noteq> 0)"
| "truthy (JNum NegZero) = False"
| "truthy (JNum NaN) = False"
| "truthy (JNum PosInfinity) = True"
| "truthy (JNum NegInfinity) = True"
| "truthy (JStr s) = (s \<noteq> [])"
| "truthy (JArr _) = True"
| "truthy (JObj _) = True"
| "truthy JFunction = True"

text \<open>
  \<^verbatim>\<open>stringifyValues\<close>. The loop runs over \<^verbatim>\<open>Object.keys(props)\<close> of the copy and assigns
  \<^verbatim>\<open>props[key]\<close> in place; \<open>stringifyKey\<close> is its body, and \<open>stringified\<close> is the value
  that \<^verbatim>\<open>JSON.stringify(value)\<close> returns. The keys of an array are its indices, so the
  loop rewrites every element; a string has only string-valued indices and a number or a
  boolean has no key, so the copy is returned as it is; \<^verbatim>\<open>Object.keys(null)\<close> throws a
  \<^verbatim>\<open>TypeError\<close> (the copy of an infinity is \<^verbatim>\<open>null\<close>).
\<close>

definition stringified :: "jsvalue \<Rightarrow> jsvalue" where
  "stringified v = (case JSON_stringify v of None \<Rightarrow> JUndefined | Some s \<Rightarrow> JStr s)"

definition stringifyKey :: "string \<Rightarrow> (string \<times> jsvalue) list \<Rightarrow> (string \<times> jsvalue) list" where
  "stringifyKey key props =
     (case map_of props key of
        None \<Rightarrow> props
      | Some v \<Rightarrow>
          if typeof v = ''string'' \<or> typeof v = ''number'' then props
          else AList.update key (stringified v) props)"

definition stringifyElement :: "jsvalue \<Rightarrow> jsvalue" where
  "stringifyElement v =
     (if typeof v = ''string'' \<or> typeof v = ''number'' then v else stringified v)"

definition stringifyValues :: "jsvalue \<Rightarrow> error + jsvalue" where
  "stringifyValues p =
     (if \<not> truthy p then Inr p
      else (case JSON_roundtrip p of
              Inl e \<Rightarrow> Inl e
            | Inr (JObj props) \<Rightarrow> Inr (JObj (fold stringifyKey (map fst props) props))
            | Inr (JArr xs) \<Rightarrow> Inr (JArr (map stringifyElement xs))
            | Inr JNull \<Rightarrow> Inl TypeError
            | Inr v \<Rightarrow> Inr v))"

section \<open>The command handler\<close>

text \<open>
  The commands that the properties below are about. The continuations \<^verbatim>\<open>onSave\<close>,
  \<^verbatim>\<open>action\<close> and \<^verbatim>\<open>error\<close> of an event are code of the caller and are not part of the
  model, nor are the log and the deferred emission of \<^verbatim>\<open>integration-no-connections\<close>.
\<close>

datatype FlowEvent =
    IntegrationUpdated
  | InsertStep int
  | InsertConnection int
  | RemoveStep int
  | SetProperty string jsvalue
  | Save

definition insertStepAfter :: "int \<Rightarrow> state \<Rightarrow> (error + unit) \<times> state" where
  "insertStepAfter position st =
     (let target = position + 1; step = createStep
      in case steps_get st of
           (None, st') \<Rightarrow> (Inl TypeError, st')
         | (Some xs, st') \<Rightarrow> (Inr (), steps_put (array_splice xs target 0 [Some step]) st'))"

definition insertConnectionAfter :: "int \<Rightarrow> state \<Rightarrow> (error + unit) \<times> state" where
  "insertConnectionAfter position st =
     (let target = position + 1; step = createStep\<lparr>stepKind := Some ''endpoint''\<rparr>
      in case steps_get st of
           (None, st') \<Rightarrow> (Inl TypeError, st')
         | (Some xs, st') \<Rightarrow> (Inr (), steps_put (array_splice xs target 0 [Some step]) st'))"

text \<open>The two branches of \<^verbatim>\<open>integration-remove-step\<close>.\<close>

definition replaceByEndpoint :: "int \<Rightarrow> state \<Rightarrow> (error + unit) \<times> state" where
  \<comment> \<open>\<^verbatim>\<open>this.steps[position] = TypeFactory.createStep(); this.steps[position].stepKind = 'endpoint'\<close>;
      the position is the first or the last one here, so it is not negative\<close>
  "replaceByEndpoint position st =
     (case steps_get st of
        (None, st') \<Rightarrow> (Inl TypeError, st')
      | (Some xs, st') \<Rightarrow>
          (Inr (),
           steps_put (array_set xs (nat position) (createStep\<lparr>stepKind := Some ''endpoint''\<rparr>)) st'))"

definition deleteStep :: "int \<Rightarrow> state \<Rightarrow> (error + unit) \<times> state" where
  \<comment> \<open>\<^verbatim>\<open>this.steps.splice(position, 1)\<close>\<close>
  "deleteStep position st =
     (case steps_get st of
        (None, st') \<Rightarrow> (Inl TypeError, st')
      | (Some xs, st') \<Rightarrow> (Inr (), steps_put (array_splice xs position 1 []) st'))"

definition removeStep :: "int \<Rightarrow> state \<Rightarrow> (error + unit) \<times> state" where
  "removeStep position st =
     (if Some position = getFirstPosition st then replaceByEndpoint position st
      else (case getLastPosition st of
              (lastPosition, st') \<Rightarrow>
                if Some position = lastPosition then replaceByEndpoint position st'
                else deleteStep position st'))"

text \<open>
  \<^verbatim>\<open>integration-set-property\<close>: the normalised \<open>v\<close> is computed (an exception of
  \<^verbatim>\<open>stringifyValues\<close> leaves the handler) and then \<^verbatim>\<open>event['value']\<close> is assigned, as
  line 413 of the source does. The properties \<^verbatim>\<open>steps\<close> and \<^verbatim>\<open>tags\<close> have typed slots in
  the record; an assignment to any other name goes to \<open>other\<close>. An assignment of a value
  to one of these two names has no counterpart in the record, and the model gives
  \<open>NotModelled\<close> for it.
\<close>

definition setProperty :: "string \<Rightarrow> jsvalue \<Rightarrow> state \<Rightarrow> (error + unit) \<times> state" where
  "setProperty property val st =
     (case (if property = ''configuredProperties'' then stringifyValues val else Inr val) of
        Inl e \<Rightarrow> (Inl e, st)
      | Inr v \<Rightarrow>
          (case priv_integration st of
             None \<Rightarrow> (Inl TypeError, st)
           | Some i \<Rightarrow>
               if property = ''steps'' \<or> property = ''tags'' then (Inl NotModelled, st)
               else (Inr (),
                     st\<lparr>priv_integration :=
                          Some (i\<lparr>other := AList.update property val (other i)\<rparr>)\<rparr>)))"

subsection \<open>The save protocol\<close>

text \<open>
  \<^verbatim>\<open>getIntegrationClone\<close> is \<^verbatim>\<open>JSON.parse(JSON.stringify(this.integration))\<close>. With no
  integration, \<^verbatim>\<open>JSON.stringify(undefined)\<close> is \<^verbatim>\<open>undefined\<close> and \<^verbatim>\<open>JSON.parse\<close> throws a
  \<^verbatim>\<open>SyntaxError\<close>. Otherwise the result is a new object graph: the copy of the tags
  array gets a fresh address of the store; steps and property values are held by value
  in the model, a hole of the steps array reads \<^verbatim>\<open>null\<close> in the copy, and a property
  whose value is \<^verbatim>\<open>undefined\<close> or a function is not in the copy.
\<close>

definition array_at :: "string list list \<Rightarrow> addr \<Rightarrow> string list" where
  "array_at h a = (if a < length h then h ! a else [])"

definition new_array :: "string list \<Rightarrow> string list list \<Rightarrow> addr \<times> string list list" where
  "new_array xs h = (length h, h @ [xs])"

definition cloneProperty :: "jsvalue option \<Rightarrow> jsvalue option" where
  "cloneProperty p =
     (case p of
        None \<Rightarrow> None
      | Some v \<Rightarrow> if omitted v then None else Some (jsonClone v))"

definition cloneProperties :: "(string \<times> jsvalue) list \<Rightarrow> (string \<times> jsvalue) list" where
  "cloneProperties ps = map (\<lambda>(k, v). (k, jsonClone v)) (filter (\<lambda>(k, v). \<not> omitted v) ps)"

definition cloneStep :: "Step \<Rightarrow> Step" where
  "cloneStep s = s\<lparr>configuredProperties := cloneProperty (configuredProperties s)\<rparr>"

definition getIntegrationClone :: "state \<Rightarrow> (error + Integration) \<times> state" where
  "getIntegrationClone st =
     (case integration_get st of
        None \<Rightarrow> (Inl SyntaxError, st)
      | Some i \<Rightarrow>
          (case tags i of
             None \<Rightarrow>
               (Inr \<lparr>steps = map_option (map (map_option cloneStep)) (steps i),
                     tags = None,
                     other = cloneProperties (other i)\<rparr>,
                st)
           | Some a \<Rightarrow>
               (case new_array (array_at (heap st) a) (heap st) of
                  (a', h') \<Rightarrow>
                    (Inr \<lparr>steps = map_option (map (map_option cloneStep)) (steps i),
                          tags = Some a',
                          other = cloneProperties (other i)\<rparr>,
                     st\<lparr>heap := h'\<rparr>))))"

fun connectorIds :: "Step list \<Rightarrow> error + string list" where
  \<comment> \<open>\<^verbatim>\<open>.map((step) => step.connection.connectorId)\<close>: a step without connection throws\<close>
  "connectorIds [] = Inr []"
| "connectorIds (s # ss) =
     (case connection s of
        None \<Rightarrow> Inl TypeError
      | Some c \<Rightarrow>
          (case connectorIds ss of
             Inl e \<Rightarrow> Inl e
           | Inr ids \<Rightarrow> Inr (connectorId c # ids)))"

definition mergeTag :: "addr \<Rightarrow> string \<Rightarrow> string list list \<Rightarrow> string list list" where
  \<comment> \<open>\<^verbatim>\<open>tags.indexOf(id) === -1 ? tags.push(id) : false\<close>, on the array at address \<open>a\<close>\<close>
  "mergeTag a ident h =
     (if ident \<notin> set (array_at h a) then h[a := array_at h a @ [ident]] else h)"

text \<open>
  The synchronous part of \<^verbatim>\<open>integration-save\<close>, up to the call of
  \<^verbatim>\<open>this.store.updateOrCreate(integration)\<close>: the result is the integration handed to the
  store. The subscription and its two callbacks run later and are not modelled.
\<close>

definition save :: "state \<Rightarrow> (error + Integration) \<times> state" where
  "save st =
     (case getIntegrationClone st of
        (Inl e, st1) \<Rightarrow> (Inl e, st1)
      | (Inr integration, st1) \<Rightarrow>
          (case (case tags integration of
                   Some a \<Rightarrow> (a, heap st1)
                 | None \<Rightarrow> new_array [] (heap st1)) of
             (tagsRef, h2) \<Rightarrow>
               (case getSubsequentConnections 0 (st1\<lparr>heap := h2\<rparr>) of
                  (None, st3) \<Rightarrow> (Inl TypeError, st3)
                | (Some conns, st3) \<Rightarrow>
                    (case connectorIds conns of
                       Inl e \<Rightarrow> (Inl e, st3)
                     | Inr ids \<Rightarrow>
                         (Inr (integration\<lparr>tags := Some tagsRef\<rparr>),
                          st3\<lparr>heap := fold (mergeTag tagsRef) ids (heap st3)\<rparr>)))))"

text \<open>
  \<^verbatim>\<open>handleEvent\<close>: the state after the event and, for a save, the integration submitted
  to the store.
\<close>

definition unit_result :: "(error + unit) \<times> state \<Rightarrow> (error + Integration option) \<times> state" where
  "unit_result r = (case r of (Inl e, st) \<Rightarrow> (Inl e, st) | (Inr _, st) \<Rightarrow> (Inr None, st))"

fun handleEvent :: "FlowEvent \<Rightarrow> state \<Rightarrow> (error + Integration option) \<times> state" where
  "handleEvent IntegrationUpdated st = (Inr None, st\<lparr>priv_loaded := True\<rparr>)"
| "handleEvent (InsertStep position) st = unit_result (insertStepAfter position st)"
| "handleEvent (InsertConnection position) st = unit_result (insertConnectionAfter position st)"
| "handleEvent (RemoveStep position) st = unit_result (removeStep position st)"
| "handleEvent (SetProperty property val) st = unit_result (setProperty property val st)"
| "handleEvent Save st =
     (case save st of (Inl e, st') \<Rightarrow> (Inl e, st') | (Inr i, st') \<Rightarrow> (Inr (Some i), st'))"

section \<open>The step kind catalogue\<close>

text \<open>
  The \<^verbatim>\<open>visible\<close> predicate of the data mapper entry of \<^verbatim>\<open>StepStore.steps\<close>. A field
  that holds an object is truthy exactly when it is present.
\<close>

definition DataMapper_visible :: "int \<Rightarrow> Step option list \<Rightarrow> Step option list \<Rightarrow> bool" where
  "DataMapper_visible position previous subsequent =
     (let prev = array_filter
            (\<lambda>s. case action s of None \<Rightarrow> False | Some a \<Rightarrow> outputDataShape a \<noteq> None) previous
      in if length prev = 0 then False
         else (let subs = array_filter
                     (\<lambda>s. case action s of None \<Rightarrow> False | Some a \<Rightarrow> inputDataShape a \<noteq> None)
                     subsequent
               in if length subs = 0 then False else True))"


section \<open>Notions used in the statements\<close>

text \<open>
  The step sequence of the loaded integration, empty when there is none; the array that
  the \<^verbatim>\<open>tags\<close> property of an integration refers to; and the condition that the tags
  of the loaded integration are an allocated array of the store.
\<close>

definition flow :: "state \<Rightarrow> Step option list" where
  "flow st =
     (case priv_integration st of
        None \<Rightarrow> []
      | Some i \<Rightarrow> (case steps i of None \<Rightarrow> [] | Some xs \<Rightarrow> xs))"

definition tagsOf :: "state \<Rightarrow> Integration \<Rightarrow> string list" where
  "tagsOf st i = (case tags i of None \<Rightarrow> [] | Some a \<Rightarrow> array_at (heap st) a)"

definition tags_allocated :: "state \<Rightarrow> bool" where
  "tags_allocated st =
     (case priv_integration st of
        None \<Rightarrow> True
      | Some i \<Rightarrow> (case tags i of None \<Rightarrow> True | Some a \<Rightarrow> a < length (heap st)))"

text \<open>
  The connector ids that the save handler reads from the endpoint steps of the flow (or
  the error of reading them), and the tags array after the merge loop has run over a list
  of ids.
\<close>

definition endpointIds :: "state \<Rightarrow> error + string list" where
  "endpointIds st = connectorIds (array_filter (\<lambda>s. stepKind s = Some ''endpoint'') (flow st))"

definition mergedTags :: "string list \<Rightarrow> string list \<Rightarrow> string list" where
  "mergedTags ts ids = fold (\<lambda>ident ts'. if ident \<notin> set ts' then ts' @ [ident] else ts') ids ts"

text \<open>
  The copy that \<^verbatim>\<open>getIntegrationClone\<close> makes of an integration, its \<^verbatim>\<open>tags\<close> apart
  (they are given the address of the new array).
\<close>

definition integrationCopy :: "Integration \<Rightarrow> Integration" where
  "integrationCopy i =
     \<lparr>steps = map_option (map (map_option cloneStep)) (steps i),
      tags = tags i,
      other = cloneProperties (other i)\<rparr>"

text \<open>The value that \<^verbatim>\<open>getLastPosition\<close> has on a loaded integration.\<close>

definition lastPosition :: "state \<Rightarrow> int" where
  "lastPosition st = (if length (flow st) \<le> 1 then 1 else int (length (flow st)) - 1)"

subsection \<open>Sample flows\<close>

definition connectionTo :: "string \<Rightarrow> Connection" where
  "connectionTo c = \<lparr>connection_name = c, connectorId = c\<rparr>"

definition endpointStep :: "string \<Rightarrow> Step" where
  "endpointStep c = createStep\<lparr>stepKind := Some ''endpoint'', connection := Some (connectionTo c)\<rparr>"

definition producerStep :: Step where
  \<comment> \<open>an endpoint whose action has a resolved output shape\<close>
  "producerStep =
     (endpointStep ''a'')\<lparr>action :=
        Some \<lparr>action_name = ''read'', inputDataShape = None,
              outputDataShape = Some (DataShape ''json-schema'' ''Order'')\<rparr>\<rparr>"

definition consumerStep :: Step where
  \<comment> \<open>an endpoint whose action has a resolved input shape\<close>
  "consumerStep =
     (endpointStep ''b'')\<lparr>action :=
        Some \<lparr>action_name = ''write'', inputDataShape = Some (DataShape ''json-schema'' ''Invoice''),
              outputDataShape = None\<rparr>\<rparr>"

definition mapperStep :: Step where
  "mapperStep = createStep\<lparr>stepKind := Some ''mapper''\<rparr>"

definition loadedFlow :: "Step option list \<Rightarrow> string list \<Rightarrow> state" where
  "loadedFlow xs ts =
     \<lparr>priv_integration = Some \<lparr>steps = Some xs, tags = Some 0, other = []\<rparr>,
      priv_loaded = True,
      heap = [ts]\<rparr>"

definition newIntegration :: state where
  \<comment> \<open>an integration that has neither \<^verbatim>\<open>steps\<close> nor \<^verbatim>\<open>tags\<close>, just loaded\<close>
  "newIntegration =
     \<lparr>priv_integration = Some \<lparr>steps = None, tags = None, other = []\<rparr>,
      priv_loaded = False,
      heap = []\<rparr>"

definition noIntegration :: state where
  "noIntegration = \<lparr>priv_integration = None, priv_loaded = False, heap = []\<rparr>"

section \<open>Properties of the positional queries and of the positional commands\<close>

lemma steps_get_loaded:
  "priv_integration st = Some i \<Longrightarrow>
   steps_get st =
     (Some (case steps i of None \<Rightarrow> [] | Some xs \<Rightarrow> xs),
      st\<lparr>priv_integration := Some (i\<lparr>steps := Some (case steps i of None \<Rightarrow> [] | Some xs \<Rightarrow> xs)\<rparr>)\<rparr>)"
  by (cases "steps i") (simp_all add: steps_get_def)

lemma steps_get_flow:
  "priv_integration st = Some i \<Longrightarrow>
   steps_get st = (Some (flow st), st\<lparr>priv_integration := Some (i\<lparr>steps := Some (flow st)\<rparr>)\<rparr>)"
  by (simp add: steps_get_loaded flow_def)

lemma getLastPosition_loaded:
  "priv_integration st = Some i \<Longrightarrow>
   getLastPosition st =
     (Some (if length (flow st) \<le> 1 then 1 else int (length (flow st)) - 1),
      st\<lparr>priv_integration := Some (i\<lparr>steps := Some (flow st)\<rparr>)\<rparr>)"
  by (simp add: getLastPosition_def integration_get_def steps_get_flow)

text \<open>
  Claim C3. On a loaded integration \<^verbatim>\<open>getLastPosition()\<close> returns 1 when the step
  sequence has length 0 or 1 and \<open>n - 1\<close> when its length \<open>n\<close> is greater than 1; the
  value is never below 1.
\<close>

theorem getLastPosition_value:
  "priv_integration st = Some i \<Longrightarrow>
   fst (getLastPosition st) =
     Some (if length (flow st) \<le> 1 then 1 else int (length (flow st)) - 1) \<and>
   (\<exists>k. fst (getLastPosition st) = Some k \<and> 1 \<le> k)"
  by (auto simp add: getLastPosition_loaded)

theorem getLastPosition_value_witness:
  "priv_integration (loadedFlow [Some (endpointStep ''a''), Some mapperStep, Some (endpointStep ''b'')] []) =
     Some \<lparr>steps = Some [Some (endpointStep ''a''), Some mapperStep, Some (endpointStep ''b'')],
           tags = Some 0, other = []\<rparr> \<and>
   fst (getLastPosition (loadedFlow [Some (endpointStep ''a''), Some mapperStep, Some (endpointStep ''b'')] [])) =
     Some 2 \<and>
   priv_integration newIntegration = Some \<lparr>steps = None, tags = None, other = []\<rparr> \<and>
   fst (getLastPosition newIntegration) = Some 1"
proof -
  let ?S = "loadedFlow [Some (endpointStep ''a''), Some mapperStep, Some (endpointStep ''b'')] []"
  have h1: "priv_integration ?S =
     Some \<lparr>steps = Some [Some (endpointStep ''a''), Some mapperStep, Some (endpointStep ''b'')],
           tags = Some 0, other = []\<rparr>"
    by (simp add: loadedFlow_def)
  have h2: "priv_integration newIntegration = Some \<lparr>steps = None, tags = None, other = []\<rparr>"
    by (simp add: newIntegration_def)
  have "length (flow ?S) = 3" by (simp add: flow_def loadedFlow_def)
  moreover have "length (flow newIntegration) = 0" by (simp add: flow_def newIntegration_def)
  ultimately show ?thesis
    using h1 h2 getLastPosition_value [OF h1] getLastPosition_value [OF h2] by simp
qed

lemma flow_steps_put:
  "priv_integration st = Some i \<Longrightarrow> flow (steps_put ys st) = ys"
  by (simp add: flow_def steps_put_def)

lemma insertStepAfter_loaded:
  "priv_integration st = Some i \<Longrightarrow>
   insertStepAfter p st =
     (Inr (), st\<lparr>priv_integration :=
                  Some (i\<lparr>steps := Some (array_splice (flow st) (p + 1) 0 [Some createStep])\<rparr>)\<rparr>)"
  by (simp add: insertStepAfter_def steps_get_flow steps_put_def)

lemma array_splice_insert:
  "0 \<le> p \<Longrightarrow> nat p \<le> length xs \<Longrightarrow>
   array_splice xs p 0 [x] = take (nat p) xs @ x # drop (nat p) xs"
  by (simp add: array_splice_def relative_index_def min_def Let_def)

text \<open>
  Claim C2. For every position \<open>p\<close> of a flow of length \<open>n\<close>, the command
  \<^verbatim>\<open>integration-insert-step\<close> at \<open>p\<close> (\<^verbatim>\<open>insertStepAfter\<close>) yields a flow of length
  \<open>n + 1\<close> whose step at index \<open>p + 1\<close> is the new blank step; the steps at indices up
  to \<open>p\<close> are unchanged and every step previously at an index from \<open>p + 1\<close> on has moved
  up by one.
\<close>

theorem insertStep_shifts:
  assumes "priv_integration st = Some i" and "0 \<le> p" and "p < int (length (flow st))"
  shows "\<exists>st'. handleEvent (InsertStep p) st = (Inr None, st') \<and>
           length (flow st') = length (flow st) + 1 \<and>
           flow st' ! (nat p + 1) = Some createStep \<and>
           (\<forall>k. k \<le> nat p \<longrightarrow> flow st' ! k = flow st ! k) \<and>
           (\<forall>k. nat p + 1 \<le> k \<and> k < length (flow st) \<longrightarrow> flow st' ! (k + 1) = flow st ! k)"
proof -
  let ?xs = "flow st"
  let ?ys = "take (nat p + 1) ?xs @ Some createStep # drop (nat p + 1) ?xs"
  let ?st' = "st\<lparr>priv_integration := Some (i\<lparr>steps := Some ?ys\<rparr>)\<rparr>"
  from assms have len: "nat p + 1 \<le> length ?xs" by linarith
  have "array_splice ?xs (p + 1) 0 [Some createStep] = ?ys"
    using array_splice_insert [of "p + 1" ?xs "Some createStep"] assms(2) len
    by (simp add: nat_add_distrib)
  then have ev: "handleEvent (InsertStep p) st = (Inr None, ?st')"
    using assms(1) by (simp add: insertStepAfter_loaded unit_result_def)
  have fl: "flow ?st' = ?ys" by (simp add: flow_def)
  have l1: "length ?ys = length ?xs + 1" using len by simp
  have l2: "?ys ! (nat p + 1) = Some createStep"
    using len by (simp add: nth_append)
  have l3: "\<forall>k. k \<le> nat p \<longrightarrow> ?ys ! k = ?xs ! k"
    using len by (simp add: nth_append)
  have l4: "\<forall>k. nat p + 1 \<le> k \<and> k < length ?xs \<longrightarrow> ?ys ! (k + 1) = ?xs ! k"
    using len by (auto simp add: nth_append min_def)
  show ?thesis using ev fl l1 l2 l3 l4 by (intro exI [of _ ?st']) simp
qed


theorem insertStep_shifts_witness:
  "priv_integration (loadedFlow [Some (endpointStep ''a''), Some (endpointStep ''b'')] []) =
     Some \<lparr>steps = Some [Some (endpointStep ''a''), Some (endpointStep ''b'')], tags = Some 0, other = []\<rparr> \<and>
   (0::int) \<le> 0 \<and>
   (0::int) < int (length (flow (loadedFlow [Some (endpointStep ''a''), Some (endpointStep ''b'')] []))) \<and>
   (\<exists>st'. handleEvent (InsertStep 0) (loadedFlow [Some (endpointStep ''a''), Some (endpointStep ''b'')] []) =
            (Inr None, st') \<and>
          length (flow st') = 3 \<and> flow st' ! 1 = Some createStep \<and>
          flow st' ! 0 = Some (endpointStep ''a'') \<and> flow st' ! 2 = Some (endpointStep ''b''))"
proof -
  let ?S = "loadedFlow [Some (endpointStep ''a''), Some (endpointStep ''b'')] []"
  have h1: "priv_integration ?S =
     Some \<lparr>steps = Some [Some (endpointStep ''a''), Some (endpointStep ''b'')], tags = Some 0, other = []\<rparr>"
    by (simp add: loadedFlow_def)
  have fl: "flow ?S = [Some (endpointStep ''a''), Some (endpointStep ''b'')]"
    by (simp add: flow_def loadedFlow_def)
  have h3: "(0::int) < int (length (flow ?S))" by (simp add: fl)
  from insertStep_shifts [OF h1 order_refl h3]
  obtain st' where ev: "handleEvent (InsertStep 0) ?S = (Inr None, st')"
    and len: "length (flow st') = length (flow ?S) + 1"
    and new: "flow st' ! (nat 0 + 1) = Some createStep"
    and low: "\<forall>k. k \<le> nat 0 \<longrightarrow> flow st' ! k = flow ?S ! k"
    and high: "\<forall>k. nat 0 + 1 \<le> k \<and> k < length (flow ?S) \<longrightarrow> flow st' ! (k + 1) = flow ?S ! k"
    by blast
  from low have "flow st' ! 0 = Some (endpointStep ''a'')" by (simp add: fl)
  moreover from high have "flow st' ! (1 + 1) = flow ?S ! 1" by (simp add: fl)
  then have "flow st' ! 2 = Some (endpointStep ''b'')" by (simp add: fl numeral_2_eq_2)
  ultimately show ?thesis
    using h1 h3 ev len new by (simp add: fl)
qed

lemma length_array_set: "length (array_set xs k v) = max (length xs) (k + 1)"
  by (simp add: array_set_def)

lemma nth_array_set_same: "array_set xs k v ! k = Some v"
  by (simp add: array_set_def nth_append)

lemma nth_array_set_other: "j < length xs \<Longrightarrow> j \<noteq> k \<Longrightarrow> array_set xs k v ! j = xs ! j"
  by (simp add: array_set_def nth_append)

lemma array_splice_delete:
  "0 \<le> p \<Longrightarrow> nat p < length xs \<Longrightarrow>
   array_splice xs p 1 [] = take (nat p) xs @ drop (nat p + 1) xs"
  by (simp add: array_splice_def relative_index_def min_def Let_def)

lemma getFirstPosition_loaded: "priv_integration st = Some i \<Longrightarrow> getFirstPosition st = Some 0"
  by (simp add: getFirstPosition_def integration_get_def)

lemma replaceByEndpoint_loaded:
  "priv_integration st = Some i \<Longrightarrow>
   replaceByEndpoint p st =
     (Inr (), st\<lparr>priv_integration :=
        Some (i\<lparr>steps := Some (array_set (flow st) (nat p) (createStep\<lparr>stepKind := Some ''endpoint''\<rparr>))\<rparr>)\<rparr>)"
  by (simp add: replaceByEndpoint_def steps_get_flow steps_put_def)

lemma deleteStep_loaded:
  "priv_integration st = Some i \<Longrightarrow>
   deleteStep p st =
     (Inr (), st\<lparr>priv_integration := Some (i\<lparr>steps := Some (array_splice (flow st) p 1 [])\<rparr>)\<rparr>)"
  by (simp add: deleteStep_def steps_get_flow steps_put_def)

lemma flow_init [simp]:
  "priv_integration st = Some i \<Longrightarrow>
   flow (st\<lparr>priv_integration := Some (i\<lparr>steps := Some (flow st)\<rparr>)\<rparr>) = flow st"
  by (simp add: flow_def)

lemma removeStep_boundary:
  assumes "priv_integration st = Some i" and "p = 0 \<or> p = lastPosition st"
  shows "removeStep p st =
     (Inr (), st\<lparr>priv_integration :=
        Some (i\<lparr>steps := Some (array_set (flow st) (nat p) (createStep\<lparr>stepKind := Some ''endpoint''\<rparr>))\<rparr>)\<rparr>)"
proof (cases "p = 0")
  case True
  then show ?thesis
    using assms(1) by (simp add: removeStep_def getFirstPosition_loaded replaceByEndpoint_loaded)
next
  case False
  with assms(2) have "p = lastPosition st" by simp
  then show ?thesis
    using assms(1) False
    by (simp add: removeStep_def getFirstPosition_loaded getLastPosition_loaded
        replaceByEndpoint_loaded lastPosition_def)
qed

lemma removeStep_interior:
  assumes "priv_integration st = Some i" and "0 < p" and "p < lastPosition st"
  shows "removeStep p st =
     (Inr (), st\<lparr>priv_integration :=
        Some (i\<lparr>steps := Some (take (nat p) (flow st) @ drop (nat p + 1) (flow st))\<rparr>)\<rparr>)"
proof -
  from assms(2,3) have "nat p < length (flow st)"
    by (auto simp add: lastPosition_def split: if_splits)
  then have "array_splice (flow st) p 1 [] = take (nat p) (flow st) @ drop (nat p + 1) (flow st)"
    using assms(2) array_splice_delete [of p "flow st"] by simp
  then show ?thesis
    using assms
    by (simp add: removeStep_def getFirstPosition_loaded getLastPosition_loaded
        deleteStep_loaded lastPosition_def)
qed

text \<open>
  Claim C1. On a loaded integration, \<^verbatim>\<open>integration-remove-step\<close> at a position equal to
  the first or the last position replaces the step at that position by a blank endpoint
  placeholder: the flow does not get shorter, the step at the position has
  \<^verbatim>\<open>stepKind\<close> \<^verbatim>\<open>'endpoint'\<close>, and the other steps stay. At a position strictly between
  the first and the last the step is deleted: the length decreases by exactly one and
  the steps after the position move down by one.
\<close>

theorem removeStep_replaces_or_deletes:
  assumes "priv_integration st = Some i"
  shows "(Some p = getFirstPosition st \<or> Some p = fst (getLastPosition st) \<longrightarrow>
            (\<exists>st'. handleEvent (RemoveStep p) st = (Inr None, st') \<and>
               length (flow st) \<le> length (flow st') \<and>
               nat p < length (flow st') \<and>
               flow st' ! nat p = Some (createStep\<lparr>stepKind := Some ''endpoint''\<rparr>) \<and>
               (\<exists>s. flow st' ! nat p = Some s \<and> stepKind s = Some ''endpoint'') \<and>
               (\<forall>k. k < length (flow st) \<and> k \<noteq> nat p \<longrightarrow> flow st' ! k = flow st ! k))) \<and>
         ((\<exists>f l. getFirstPosition st = Some f \<and> fst (getLastPosition st) = Some l \<and>
                 f < p \<and> p < l) \<longrightarrow>
            (\<exists>st'. handleEvent (RemoveStep p) st = (Inr None, st') \<and>
               length (flow st') + 1 = length (flow st) \<and>
               (\<forall>k. k < nat p \<longrightarrow> flow st' ! k = flow st ! k) \<and>
               (\<forall>k. nat p \<le> k \<and> k < length (flow st') \<longrightarrow> flow st' ! k = flow st ! (k + 1))))"
proof (intro conjI impI)
  assume "Some p = getFirstPosition st \<or> Some p = fst (getLastPosition st)"
  then have b: "p = 0 \<or> p = lastPosition st"
    using assms by (auto simp add: getFirstPosition_loaded getLastPosition_loaded lastPosition_def)
  let ?e = "createStep\<lparr>stepKind := Some ''endpoint''\<rparr>"
  let ?ys = "array_set (flow st) (nat p) ?e"
  let ?st' = "st\<lparr>priv_integration := Some (i\<lparr>steps := Some ?ys\<rparr>)\<rparr>"
  have ev: "handleEvent (RemoveStep p) st = (Inr None, ?st')"
    using removeStep_boundary [OF assms b] by (simp add: unit_result_def)
  have fl: "flow ?st' = ?ys" by (simp add: flow_def)
  have "length (flow st) \<le> length ?ys" "nat p < length ?ys"
    by (simp_all add: length_array_set)
  moreover have "?ys ! nat p = Some ?e" by (rule nth_array_set_same)
  moreover have "stepKind ?e = Some ''endpoint''" by simp
  moreover have "\<forall>k. k < length (flow st) \<and> k \<noteq> nat p \<longrightarrow> ?ys ! k = flow st ! k"
    by (simp add: nth_array_set_other)
  ultimately show "\<exists>st'. handleEvent (RemoveStep p) st = (Inr None, st') \<and>
               length (flow st) \<le> length (flow st') \<and>
               nat p < length (flow st') \<and>
               flow st' ! nat p = Some (createStep\<lparr>stepKind := Some ''endpoint''\<rparr>) \<and>
               (\<exists>s. flow st' ! nat p = Some s \<and> stepKind s = Some ''endpoint'') \<and>
               (\<forall>k. k < length (flow st) \<and> k \<noteq> nat p \<longrightarrow> flow st' ! k = flow st ! k)"
    using ev fl by (intro exI [of _ ?st']) simp
next
  assume "\<exists>f l. getFirstPosition st = Some f \<and> fst (getLastPosition st) = Some l \<and> f < p \<and> p < l"
  then have b: "0 < p" "p < lastPosition st"
    using assms by (auto simp add: getFirstPosition_loaded getLastPosition_loaded lastPosition_def)
  then have len: "nat p + 1 < length (flow st)"
    by (auto simp add: lastPosition_def split: if_splits)
  let ?ys = "take (nat p) (flow st) @ drop (nat p + 1) (flow st)"
  let ?st' = "st\<lparr>priv_integration := Some (i\<lparr>steps := Some ?ys\<rparr>)\<rparr>"
  have ev: "handleEvent (RemoveStep p) st = (Inr None, ?st')"
    using removeStep_interior [OF assms b] by (simp add: unit_result_def)
  have fl: "flow ?st' = ?ys" by (simp add: flow_def)
  have l1: "length ?ys + 1 = length (flow st)" using len by simp
  have l2: "\<forall>k. k < nat p \<longrightarrow> ?ys ! k = flow st ! k"
    using len by (simp add: nth_append)
  have l3: "\<forall>k. nat p \<le> k \<and> k < length ?ys \<longrightarrow> ?ys ! k = flow st ! (k + 1)"
    using len by (auto simp add: nth_append min_def)
  show "\<exists>st'. handleEvent (RemoveStep p) st = (Inr None, st') \<and>
               length (flow st') + 1 = length (flow st) \<and>
               (\<forall>k. k < nat p \<longrightarrow> flow st' ! k = flow st ! k) \<and>
               (\<forall>k. nat p \<le> k \<and> k < length (flow st') \<longrightarrow> flow st' ! k = flow st ! (k + 1))"
    using ev fl l1 l2 l3 by (intro exI [of _ ?st']) simp
qed


theorem removeStep_replaces_or_deletes_witness:
  "priv_integration (loadedFlow [Some (endpointStep ''a''), Some (endpointStep ''b'')] []) =
     Some \<lparr>steps = Some [Some (endpointStep ''a''), Some (endpointStep ''b'')], tags = Some 0, other = []\<rparr> \<and>
   Some 0 = getFirstPosition (loadedFlow [Some (endpointStep ''a''), Some (endpointStep ''b'')] []) \<and>
   (\<exists>st'. handleEvent (RemoveStep 0) (loadedFlow [Some (endpointStep ''a''), Some (endpointStep ''b'')] []) =
            (Inr None, st') \<and>
          length (flow st') = 2 \<and>
          flow st' ! 0 = Some (createStep\<lparr>stepKind := Some ''endpoint''\<rparr>) \<and>
          flow st' ! 1 = Some (endpointStep ''b'')) \<and>
   priv_integration (loadedFlow [Some (endpointStep ''a''), Some mapperStep, Some (endpointStep ''b'')] []) =
     Some \<lparr>steps = Some [Some (endpointStep ''a''), Some mapperStep, Some (endpointStep ''b'')],
           tags = Some 0, other = []\<rparr> \<and>
   getFirstPosition (loadedFlow [Some (endpointStep ''a''), Some mapperStep, Some (endpointStep ''b'')] []) =
     Some 0 \<and>
   fst (getLastPosition (loadedFlow [Some (endpointStep ''a''), Some mapperStep, Some (endpointStep ''b'')] [])) =
     Some 2 \<and>
   (\<exists>st'. handleEvent (RemoveStep 1)
            (loadedFlow [Some (endpointStep ''a''), Some mapperStep, Some (endpointStep ''b'')] []) =
            (Inr None, st') \<and>
          length (flow st') = 2 \<and>
          flow st' ! 0 = Some (endpointStep ''a'') \<and>
          flow st' ! 1 = Some (endpointStep ''b''))"
proof -
  let ?S = "loadedFlow [Some (endpointStep ''a''), Some (endpointStep ''b'')] []"
  let ?T = "loadedFlow [Some (endpointStep ''a''), Some mapperStep, Some (endpointStep ''b'')] []"
  have hS: "priv_integration ?S =
     Some \<lparr>steps = Some [Some (endpointStep ''a''), Some (endpointStep ''b'')], tags = Some 0, other = []\<rparr>"
    by (simp add: loadedFlow_def)
  have hT: "priv_integration ?T =
     Some \<lparr>steps = Some [Some (endpointStep ''a''), Some mapperStep, Some (endpointStep ''b'')],
           tags = Some 0, other = []\<rparr>"
    by (simp add: loadedFlow_def)
  have flS: "flow ?S = [Some (endpointStep ''a''), Some (endpointStep ''b'')]"
    by (simp add: flow_def loadedFlow_def)
  have flT: "flow ?T = [Some (endpointStep ''a''), Some mapperStep, Some (endpointStep ''b'')]"
    by (simp add: flow_def loadedFlow_def)
  have fS: "Some 0 = getFirstPosition ?S" using hS by (simp add: getFirstPosition_loaded)
  have fT: "getFirstPosition ?T = Some 0" using hT by (simp add: getFirstPosition_loaded)
  have lT: "fst (getLastPosition ?T) = Some 2" using hT by (simp add: getLastPosition_loaded flT)
  from removeStep_replaces_or_deletes [OF hS, of 0] fS
  obtain st' where a: "handleEvent (RemoveStep 0) ?S = (Inr None, st')"
    and a1: "length (flow ?S) \<le> length (flow st')"
    and a2: "flow st' ! nat 0 = Some (createStep\<lparr>stepKind := Some ''endpoint''\<rparr>)"
    and a3: "\<forall>k. k < length (flow ?S) \<and> k \<noteq> nat 0 \<longrightarrow> flow st' ! k = flow ?S ! k"
    by blast
  have "removeStep 0 ?S =
     (Inr (), ?S\<lparr>priv_integration :=
        Some (\<lparr>steps = Some [Some (endpointStep ''a''), Some (endpointStep ''b'')], tags = Some 0, other = []\<rparr>
          \<lparr>steps := Some (array_set (flow ?S) (nat 0) (createStep\<lparr>stepKind := Some ''endpoint''\<rparr>))\<rparr>)\<rparr>)"
    by (rule removeStep_boundary [OF hS]) simp
  with a have "length (flow st') = length (array_set (flow ?S) 0 (createStep\<lparr>stepKind := Some ''endpoint''\<rparr>))"
    by (auto simp add: unit_result_def flow_def)
  then have a4: "length (flow st') = 2"
    by (simp add: length_array_set flS)
  from a3 have a5: "flow st' ! 1 = Some (endpointStep ''b'')" by (simp add: flS)
  have "\<exists>f l. getFirstPosition ?T = Some f \<and> fst (getLastPosition ?T) = Some l \<and> f < 1 \<and> 1 < l"
    using fT lT by simp
  with removeStep_replaces_or_deletes [OF hT, of 1]
  obtain st2 where b: "handleEvent (RemoveStep 1) ?T = (Inr None, st2)"
    and b1: "length (flow st2) + 1 = length (flow ?T)"
    and b2: "\<forall>k. k < nat 1 \<longrightarrow> flow st2 ! k = flow ?T ! k"
    and b3: "\<forall>k. nat 1 \<le> k \<and> k < length (flow st2) \<longrightarrow> flow st2 ! k = flow ?T ! (k + 1)"
    by blast
  from b1 have b4: "length (flow st2) = 2" by (simp add: flT)
  from b2 have b5: "flow st2 ! 0 = Some (endpointStep ''a'')" by (simp add: flT)
  from b3 b4 have "flow st2 ! 1 = flow ?T ! (1 + 1)" by simp
  then have b6: "flow st2 ! 1 = Some (endpointStep ''b'')" by (simp add: flT)
  show ?thesis
    using hS fS a a2 a4 a5 hT fT lT b b4 b5 b6 by simp
qed

section \<open>Normalisation of property values\<close>



















text \<open>
  Claim C6. The claim says that \<^verbatim>\<open>integration-set-property\<close> with the property
  \<^verbatim>\<open>configuredProperties\<close> stores the normalised value. The handler computes the
  normalised value and then assigns the raw \<^verbatim>\<open>event['value']\<close>: for the payload
  \<^verbatim>\<open>{enabled: true}\<close> the stored value is \<^verbatim>\<open>{enabled: true}\<close>, while the normalised
  value is \<^verbatim>\<open>{enabled: "true"}\<close>.
\<close>

theorem setProperty_stores_raw_value:
  "(\<exists>st' i'. handleEvent (SetProperty ''configuredProperties'' (JObj [(''enabled'', JBool True)]))
                newIntegration = (Inr None, st') \<and>
             priv_integration st' = Some i' \<and>
             map_of (other i') ''configuredProperties'' = Some (JObj [(''enabled'', JBool True)])) \<and>
   stringifyValues (JObj [(''enabled'', JBool True)]) = Inr (JObj [(''enabled'', JStr ''true'')])"
  by (simp add: setProperty_def unit_result_def newIntegration_def stringifyValues_def
      JSON_roundtrip_def stringifyKey_def stringified_def JSON_stringify_def)

section \<open>Queries without an integration\<close>

text \<open>
  Claim C7. The claim says that, with no integration loaded, \<^verbatim>\<open>getPreviousConnection(p)\<close>
  and \<^verbatim>\<open>getSubsequentConnection(p)\<close> return an undefined or empty result. In the code
  \<^verbatim>\<open>getPreviousConnections\<close> and \<^verbatim>\<open>getSubsequentConnections\<close> return \<^verbatim>\<open>null\<close> then,
  and the two queries dereference it: both throw a \<^verbatim>\<open>TypeError\<close>, at every position.
\<close>

theorem connection_queries_throw_without_integration:
  "fst (getPreviousConnection p noIntegration) = Inl TypeError \<and>
   fst (getSubsequentConnection p noIntegration) = Inl TypeError"
  by (simp add: getPreviousConnection_def getPreviousConnections_def getPreviousSteps_def
      getSubsequentConnection_def getSubsequentConnections_def getSubsequentSteps_def
      noIntegration_def)

section \<open>The visibility predicate of the data mapper\<close>

lemma array_filter_empty_iff: "(length (array_filter P xs) = 0) = (\<not> (\<exists>s. Some s \<in> set xs \<and> P s))"
  by (induction xs) (auto simp add: array_filter_def List.map_filter_simps split: option.splits)

text \<open>
  Claim C9. The visibility predicate of the data mapper is true exactly when some
  preceding step has an action with an output data shape and some subsequent step has
  an action with an input data shape; in particular it is false when there is no
  preceding step.
\<close>

theorem DataMapper_visible_iff:
  "DataMapper_visible position previous subsequent =
     ((\<exists>s a. Some s \<in> set previous \<and> action s = Some a \<and> outputDataShape a \<noteq> None) \<and>
      (\<exists>s a. Some s \<in> set subsequent \<and> action s = Some a \<and> inputDataShape a \<noteq> None)) \<and>
   DataMapper_visible position [] subsequent = False"
proof -
  have 1: "(\<exists>s. Some s \<in> set previous \<and>
             (case action s of None \<Rightarrow> False | Some a \<Rightarrow> outputDataShape a \<noteq> None)) =
           (\<exists>s a. Some s \<in> set previous \<and> action s = Some a \<and> outputDataShape a \<noteq> None)"
    by (auto split: option.splits)
  have 2: "(\<exists>s. Some s \<in> set subsequent \<and>
             (case action s of None \<Rightarrow> False | Some a \<Rightarrow> inputDataShape a \<noteq> None)) =
           (\<exists>s a. Some s \<in> set subsequent \<and> action s = Some a \<and> inputDataShape a \<noteq> None)"
    by (auto split: option.splits)
  have "DataMapper_visible position previous subsequent =
     ((\<exists>s. Some s \<in> set previous \<and>
             (case action s of None \<Rightarrow> False | Some a \<Rightarrow> outputDataShape a \<noteq> None)) \<and>
      (\<exists>s. Some s \<in> set subsequent \<and>
             (case action s of None \<Rightarrow> False | Some a \<Rightarrow> inputDataShape a \<noteq> None)))"
    unfolding DataMapper_visible_def Let_def array_filter_empty_iff by simp
  moreover have "DataMapper_visible position [] subsequent = False"
    by (simp add: DataMapper_visible_def array_filter_def List.map_filter_simps)
  ultimately show ?thesis unfolding 1 2 by simp
qed

theorem DataMapper_visible_iff_witness:
  "DataMapper_visible 1 [Some producerStep] [Some consumerStep] \<and>
   \<not> DataMapper_visible 1 [Some producerStep] [] \<and>
   \<not> DataMapper_visible 1 [] [Some consumerStep] \<and>
   \<not> DataMapper_visible 1 [Some producerStep] [Some mapperStep]"
  using DataMapper_visible_iff [of 1 "[Some producerStep]" "[Some consumerStep]"]
    DataMapper_visible_iff [of 1 "[Some producerStep]" "[]"]
    DataMapper_visible_iff [of 1 "[]" "[Some consumerStep]"]
    DataMapper_visible_iff [of 1 "[Some producerStep]" "[Some mapperStep]"]
  by (simp add: producerStep_def consumerStep_def mapperStep_def endpointStep_def createStep_def)

section \<open>The save protocol: tags and frame\<close>

lemma mergedTags_Nil: "mergedTags ts [] = ts"
  by (simp add: mergedTags_def)

lemma mergedTags_Cons:
  "mergedTags ts (a # ids) = mergedTags (if a \<notin> set ts then ts @ [a] else ts) ids"
  by (simp add: mergedTags_def)

lemma mergedTags_append:
  "\<exists>new. mergedTags ts ids = ts @ new \<and> distinct new \<and> set new = set ids - set ts"
proof (induction ids arbitrary: ts)
  case Nil
  show ?case by (simp add: mergedTags_Nil)
next
  case (Cons a ids)
  show ?case
  proof (cases "a \<in> set ts")
    case True
    from Cons.IH [of ts] obtain new where
      n: "mergedTags ts ids = ts @ new" "distinct new" "set new = set ids - set ts" by blast
    from True n(1) have "mergedTags ts (a # ids) = ts @ new" by (simp add: mergedTags_Cons)
    moreover from True n(3) have "set new = set (a # ids) - set ts" by auto
    ultimately show ?thesis using n(2) by blast
  next
    case False
    from Cons.IH [of "ts @ [a]"] obtain new where
      n: "mergedTags (ts @ [a]) ids = (ts @ [a]) @ new" "distinct new"
         "set new = set ids - set (ts @ [a])" by blast
    from n(1) False have "mergedTags ts (a # ids) = ts @ (a # new)" by (simp add: mergedTags_Cons)
    moreover from n(2,3) have "distinct (a # new)" by simp
    moreover from n(3) False have "set (a # new) = set (a # ids) - set ts" by auto
    ultimately show ?thesis by blast
  qed
qed

lemma mergedTags_absorbed: "set ids \<subseteq> set ts \<Longrightarrow> mergedTags ts ids = ts"
  by (induction ids) (simp_all add: mergedTags_Nil mergedTags_Cons)

lemma set_mergedTags: "set (mergedTags ts ids) = set ts \<union> set ids"
proof -
  obtain new where "mergedTags ts ids = ts @ new" "set new = set ids - set ts"
    using mergedTags_append [of ts ids] by blast
  then show ?thesis by auto
qed

lemma mergedTags_idem: "mergedTags (mergedTags ts ids) ids = mergedTags ts ids"
  by (rule mergedTags_absorbed) (simp add: set_mergedTags)

lemma distinct_mergedTags: "distinct ts \<Longrightarrow> distinct (mergedTags ts ids)"
proof -
  assume d: "distinct ts"
  obtain new where "mergedTags ts ids = ts @ new" "distinct new" "set new = set ids - set ts"
    using mergedTags_append [of ts ids] by blast
  with d show ?thesis by auto
qed

lemma fold_mergeTag:
  "a < length h \<Longrightarrow> fold (mergeTag a) ids h = h[a := mergedTags (h ! a) ids]"
proof (induction ids arbitrary: h)
  case Nil
  then show ?case by (simp add: mergedTags_def)
next
  case (Cons x ids)
  have "mergeTag a x h = h[a := (if x \<notin> set (h ! a) then h ! a @ [x] else h ! a)]"
    using Cons.prems by (simp add: mergeTag_def array_at_def)
  moreover have "a < length (mergeTag a x h)"
    using Cons.prems by (simp add: mergeTag_def)
  ultimately show ?case
    using Cons.IH [of "mergeTag a x h"] Cons.prems by (simp add: mergedTags_def)
qed

lemma getSubsequentConnections_loaded:
  "priv_integration st = Some i \<Longrightarrow>
   getSubsequentConnections 0 st =
     (Some (array_filter (\<lambda>s. stepKind s = Some ''endpoint'') (flow st)),
      st\<lparr>priv_integration := Some (i\<lparr>steps := Some (flow st)\<rparr>)\<rparr>)"
  by (simp add: getSubsequentConnections_def getSubsequentSteps_def flow_def
      array_slice_from_def relative_index_def Let_def)

lemma tags_integrationCopy: "tags (integrationCopy i) = tags i"
  by (simp add: integrationCopy_def)

lemma getIntegrationClone_loaded:
  assumes "priv_integration st = Some i"
  shows "getIntegrationClone st =
     (case tags i of
        None \<Rightarrow> (Inr (integrationCopy i), st)
      | Some a \<Rightarrow> (Inr ((integrationCopy i)\<lparr>tags := Some (length (heap st))\<rparr>),
                   st\<lparr>heap := heap st @ [array_at (heap st) a]\<rparr>))"
  using assms
  by (cases "tags i")
    (simp_all add: getIntegrationClone_def integration_get_def integrationCopy_def new_array_def)

lemma save_loaded:
  assumes "priv_integration st = Some i"
  shows "save st =
     (case endpointIds st of
        Inl e \<Rightarrow>
          (Inl e, st\<lparr>priv_integration := Some (i\<lparr>steps := Some (flow st)\<rparr>),
                     heap := heap st @ [tagsOf st i]\<rparr>)
      | Inr ids \<Rightarrow>
          (Inr ((integrationCopy i)\<lparr>tags := Some (length (heap st))\<rparr>),
           st\<lparr>priv_integration := Some (i\<lparr>steps := Some (flow st)\<rparr>),
              heap := heap st @ [mergedTags (tagsOf st i) ids]\<rparr>))"
proof (cases "tags i")
  case None
  have fl: "flow (st\<lparr>heap := heap st @ [[]]\<rparr>) = flow st" by (simp add: flow_def)
  have "fold (mergeTag (length (heap st))) ids (heap st @ [[]]) =
        heap st @ [mergedTags [] ids]" for ids
    using fold_mergeTag [of "length (heap st)" "heap st @ [[]]" ids] by simp
  then show ?thesis
    using assms None
    by (simp add: save_def getIntegrationClone_loaded new_array_def tags_integrationCopy
        getSubsequentConnections_loaded fl endpointIds_def tagsOf_def split: sum.splits)
next
  case (Some a)
  let ?h = "heap st @ [array_at (heap st) a]"
  have fl: "flow (st\<lparr>heap := ?h\<rparr>) = flow st" by (simp add: flow_def)
  have "fold (mergeTag (length (heap st))) ids ?h =
        heap st @ [mergedTags (array_at (heap st) a) ids]" for ids
    using fold_mergeTag [of "length (heap st)" ?h ids] by simp
  then show ?thesis
    using assms Some
    by (simp add: save_def getIntegrationClone_loaded
        getSubsequentConnections_loaded fl endpointIds_def tagsOf_def split: sum.splits)
qed


lemma tagsOf_heap_append:
  assumes "priv_integration st = Some i" and "tags_allocated st"
  shows "tagsOf (st\<lparr>priv_integration := Some j, heap := heap st @ [ts]\<rparr>) i = tagsOf st i"
  using assms
  by (cases "tags i") (simp_all add: tagsOf_def tags_allocated_def array_at_def nth_append)

lemma handleEvent_Save:
  "handleEvent Save st =
     (case save st of (Inl e, st') \<Rightarrow> (Inl e, st') | (Inr i, st') \<Rightarrow> (Inr (Some i), st'))"
  by simp

text \<open>
  Claim C4. The tag merge of the save handler is idempotent and adds no duplicate. When
  a save of a loaded integration reaches the store, the tags of the submitted copy are
  the tags of the live integration followed by the connector ids of the endpoint steps
  that were not among them, each once (membership is by value); tags without duplicates
  stay so; running the merge loop again over the submitted tags changes nothing; and a
  second save right after the first submits the same tags.
\<close>

theorem save_tag_merge:
  assumes "priv_integration st = Some i" and "tags_allocated st"
    and "handleEvent Save st = (Inr (Some saved), st')"
  shows "\<exists>ids new a.
           endpointIds st = Inr ids \<and>
           tagsOf st' saved = tagsOf st i @ new \<and>
           distinct new \<and> set new = set ids - set (tagsOf st i) \<and>
           (distinct (tagsOf st i) \<longrightarrow> distinct (tagsOf st' saved)) \<and>
           tags saved = Some a \<and> fold (mergeTag a) ids (heap st') = heap st' \<and>
           (\<exists>saved2 st2. handleEvent Save st' = (Inr (Some saved2), st2) \<and>
              tagsOf st2 saved2 = tagsOf st' saved)"
proof -
  let ?T = "tagsOf st i"
  let ?i' = "i\<lparr>steps := Some (flow st)\<rparr>"
  let ?n = "length (heap st)"
  from assms(3) obtain ids where ids: "endpointIds st = Inr ids"
    using assms(1) by (auto simp add: save_loaded split: sum.splits)
  let ?M = "mergedTags ?T ids"
  have sv: "saved = (integrationCopy i)\<lparr>tags := Some ?n\<rparr>"
    and st': "st' = st\<lparr>priv_integration := Some ?i', heap := heap st @ [?M]\<rparr>"
    using assms(1,3) ids by (simp_all add: save_loaded)
  have saved_tags: "tagsOf st' saved = ?M"
    by (simp add: sv st' tagsOf_def array_at_def)
  obtain new where new: "?M = ?T @ new" "distinct new" "set new = set ids - set ?T"
    using mergedTags_append [of ?T ids] by blast
  have again: "fold (mergeTag ?n) ids (heap st') = heap st'"
  proof -
    have "fold (mergeTag ?n) ids (heap st') = (heap st')[?n := mergedTags (heap st' ! ?n) ids]"
      by (rule fold_mergeTag) (simp add: st')
    also have "\<dots> = heap st'" by (simp add: st' mergedTags_idem)
    finally show ?thesis .
  qed
  have live: "priv_integration st' = Some ?i'" by (simp add: st')
  have fl: "flow st' = flow st" by (simp add: st' flow_def)
  have ids': "endpointIds st' = Inr ids" using ids by (simp add: endpointIds_def fl)
  have "tagsOf st' i = ?T" unfolding st' by (rule tagsOf_heap_append [OF assms(1,2)])
  then have live_tags: "tagsOf st' ?i' = ?T" by (simp add: tagsOf_def)
  let ?saved2 = "(integrationCopy ?i')\<lparr>tags := Some (length (heap st'))\<rparr>"
  let ?st2 = "st'\<lparr>priv_integration := Some (?i'\<lparr>steps := Some (flow st')\<rparr>),
                 heap := heap st' @ [?M]\<rparr>"
  have second: "handleEvent Save st' = (Inr (Some ?saved2), ?st2)"
    using save_loaded [OF live] ids' live_tags by (simp add: handleEvent_Save)
  have second_tags: "tagsOf ?st2 ?saved2 = ?M"
    by (simp add: tagsOf_def array_at_def)
  have "distinct ?T \<longrightarrow> distinct (tagsOf st' saved)"
    by (simp add: saved_tags distinct_mergedTags)
  moreover have "tags saved = Some ?n" by (simp add: sv)
  moreover have "tagsOf st' saved = ?T @ new" using saved_tags new(1) by simp
  moreover have "\<exists>saved2 st2. handleEvent Save st' = (Inr (Some saved2), st2) \<and>
              tagsOf st2 saved2 = tagsOf st' saved"
    using second second_tags saved_tags by (metis (no_types, lifting))
  ultimately show ?thesis
    using ids new(2,3) again by blast
qed

theorem save_tag_merge_witness:
  "priv_integration
     (loadedFlow [Some (endpointStep ''a''), Some mapperStep, Some (endpointStep ''b'')] [''a'', ''x'']) =
     Some \<lparr>steps = Some [Some (endpointStep ''a''), Some mapperStep, Some (endpointStep ''b'')],
           tags = Some 0, other = []\<rparr> \<and>
   tags_allocated
     (loadedFlow [Some (endpointStep ''a''), Some mapperStep, Some (endpointStep ''b'')] [''a'', ''x'']) \<and>
   (\<exists>saved st'.
      handleEvent Save
        (loadedFlow [Some (endpointStep ''a''), Some mapperStep, Some (endpointStep ''b'')] [''a'', ''x'']) =
        (Inr (Some saved), st') \<and>
      tagsOf st' saved = [''a'', ''x'', ''b''] \<and>
      (\<exists>saved2 st2. handleEvent Save st' = (Inr (Some saved2), st2) \<and>
         tagsOf st2 saved2 = [''a'', ''x'', ''b'']))"
proof -
  let ?xs = "[Some (endpointStep ''a''), Some mapperStep, Some (endpointStep ''b'')]"
  let ?S = "loadedFlow ?xs [''a'', ''x'']"
  let ?I = "\<lparr>steps = Some ?xs, tags = Some 0, other = []\<rparr>"
  have h1: "priv_integration ?S = Some ?I" by (simp add: loadedFlow_def)
  have h2: "tags_allocated ?S" by (simp add: tags_allocated_def loadedFlow_def)
  have fl: "flow ?S = ?xs" by (simp add: flow_def loadedFlow_def)
  have ids: "endpointIds ?S = Inr [''a'', ''b'']"
    unfolding endpointIds_def fl
    by (simp add: array_filter_def List.map_filter_simps endpointStep_def
        mapperStep_def createStep_def connectionTo_def)
  have live: "tagsOf ?S ?I = [''a'', ''x'']"
    by (simp add: tagsOf_def array_at_def loadedFlow_def)
  have m: "mergedTags [''a'', ''x''] [''a'', ''b''] = [''a'', ''x'', ''b'']"
    by (simp add: mergedTags_def)
  obtain saved st' where ev: "handleEvent Save ?S = (Inr (Some saved), st')"
    using save_loaded [OF h1] ids by (simp add: handleEvent_Save)
  from save_tag_merge [OF h1 h2 ev] obtain ids' new saved2 st2 where
    a: "endpointIds ?S = Inr ids'" "tagsOf st' saved = tagsOf ?S ?I @ new"
    and b: "handleEvent Save st' = (Inr (Some saved2), st2)" "tagsOf st2 saved2 = tagsOf st' saved"
    by blast
  have "tagsOf st' saved = [''a'', ''x'', ''b'']"
    using ev save_loaded [OF h1] ids live m by (auto simp add: handleEvent_Save tagsOf_def array_at_def)
  with b ev h1 h2 show ?thesis by auto
qed

text \<open>
  Claim C10, as amended. The synchronous part of the save handler changes the live
  integration at most by initialising an absent \<^verbatim>\<open>steps\<close> to the empty array (the
  accessor \<^verbatim>\<open>getSubsequentSteps\<close> does that); when \<^verbatim>\<open>steps\<close> is present the live
  integration is the same before and after. The tags of the live integration and every
  array that existed before the save are unchanged, whether the save reaches the store or
  throws: the merge writes to the tags array of the clone, which is a new array.
\<close>

theorem save_frame:
  assumes "priv_integration st = Some i" and "tags_allocated st"
  shows "priv_integration (snd (handleEvent Save st)) = Some (i\<lparr>steps := Some (flow st)\<rparr>) \<and>
         (steps i \<noteq> None \<longrightarrow> priv_integration (snd (handleEvent Save st)) = Some i) \<and>
         tagsOf (snd (handleEvent Save st)) i = tagsOf st i \<and>
         take (length (heap st)) (heap (snd (handleEvent Save st))) = heap st \<and>
         priv_loaded (snd (handleEvent Save st)) = priv_loaded st \<and>
         (\<forall>saved. fst (handleEvent Save st) = Inr (Some saved) \<longrightarrow>
            tags saved = Some (length (heap st)))"
proof -
  let ?i' = "i\<lparr>steps := Some (flow st)\<rparr>"
  obtain ts r where r: "handleEvent Save st =
      (r, st\<lparr>priv_integration := Some ?i', heap := heap st @ [ts]\<rparr>)"
    and rs: "\<forall>saved. r = Inr (Some saved) \<longrightarrow> tags saved = Some (length (heap st))"
    using assms(1) by (cases "endpointIds st") (auto simp add: save_loaded)
  have "steps i \<noteq> None \<longrightarrow> ?i' = i"
    using assms(1) by (auto simp add: flow_def)
  moreover have "tagsOf (st\<lparr>priv_integration := Some ?i', heap := heap st @ [ts]\<rparr>) i = tagsOf st i"
    by (rule tagsOf_heap_append [OF assms])
  ultimately show ?thesis
    using rs by (simp add: r del: handleEvent.simps)
qed

theorem save_frame_witness:
  "priv_integration
     (loadedFlow [Some (endpointStep ''a''), Some mapperStep, Some (endpointStep ''b'')] [''a'', ''x'']) =
     Some \<lparr>steps = Some [Some (endpointStep ''a''), Some mapperStep, Some (endpointStep ''b'')],
           tags = Some 0, other = []\<rparr> \<and>
   tags_allocated
     (loadedFlow [Some (endpointStep ''a''), Some mapperStep, Some (endpointStep ''b'')] [''a'', ''x'']) \<and>
   priv_integration
     (snd (handleEvent Save
        (loadedFlow [Some (endpointStep ''a''), Some mapperStep, Some (endpointStep ''b'')] [''a'', ''x'']))) =
     Some \<lparr>steps = Some [Some (endpointStep ''a''), Some mapperStep, Some (endpointStep ''b'')],
           tags = Some 0, other = []\<rparr> \<and>
   tagsOf
     (snd (handleEvent Save
        (loadedFlow [Some (endpointStep ''a''), Some mapperStep, Some (endpointStep ''b'')] [''a'', ''x''])))
     \<lparr>steps = Some [Some (endpointStep ''a''), Some mapperStep, Some (endpointStep ''b'')],
      tags = Some 0, other = []\<rparr> = [''a'', ''x'']"
proof -
  let ?xs = "[Some (endpointStep ''a''), Some mapperStep, Some (endpointStep ''b'')]"
  let ?S = "loadedFlow ?xs [''a'', ''x'']"
  let ?I = "\<lparr>steps = Some ?xs, tags = Some 0, other = []\<rparr>"
  have h1: "priv_integration ?S = Some ?I" by (simp add: loadedFlow_def)
  have h2: "tags_allocated ?S" by (simp add: tags_allocated_def loadedFlow_def)
  have live: "tagsOf ?S ?I = [''a'', ''x'']"
    by (simp add: tagsOf_def array_at_def loadedFlow_def)
  from save_frame [OF h1 h2]
  have "steps ?I \<noteq> None \<longrightarrow> priv_integration (snd (handleEvent Save ?S)) = Some ?I"
    and "tagsOf (snd (handleEvent Save ?S)) ?I = tagsOf ?S ?I"
    by blast+
  with live h1 h2 show ?thesis by simp
qed

text \<open>
  The claim as stated fails on an integration loaded without \<^verbatim>\<open>steps\<close>, also after
  \<^verbatim>\<open>integration-updated\<close> has been handled: the save leaves the live integration with
  \<^verbatim>\<open>steps\<close> equal to the empty array.
\<close>

theorem save_initialises_steps:
  "\<exists>st1. handleEvent IntegrationUpdated newIntegration = (Inr None, st1) \<and>
         priv_loaded st1 \<and>
         priv_integration st1 = Some \<lparr>steps = None, tags = None, other = []\<rparr> \<and>
         priv_integration (snd (handleEvent Save st1)) =
           Some \<lparr>steps = Some [], tags = None, other = []\<rparr> \<and>
         priv_integration (snd (handleEvent Save st1)) \<noteq> priv_integration st1"
proof -
  let ?st1 = "newIntegration\<lparr>priv_loaded := True\<rparr>"
  let ?I = "\<lparr>steps = None, tags = None, other = []\<rparr>"
  have ev: "handleEvent IntegrationUpdated newIntegration = (Inr None, ?st1)" by simp
  have h: "priv_integration ?st1 = Some ?I" by (simp add: newIntegration_def)
  have fl: "flow ?st1 = []" by (simp add: flow_def newIntegration_def)
  have "endpointIds ?st1 = Inr []"
    unfolding endpointIds_def fl by (simp add: array_filter_def List.map_filter_simps)
  then have "priv_integration (snd (handleEvent Save ?st1)) = Some (?I\<lparr>steps := Some []\<rparr>)"
    using save_loaded [OF h] fl by (simp add: handleEvent_Save)
  with ev h show ?thesis by simp
qed

text \<open>
  Claim C5. The claim says that a save never throws, also when the flow holds a blank
  endpoint placeholder. The handler reads \<^verbatim>\<open>step.connection.connectorId\<close> of every
  endpoint step: after \<^verbatim>\<open>integration-remove-step\<close> at position 0 of a two-step flow the
  first step is a blank endpoint without connection, and the save throws a
  \<^verbatim>\<open>TypeError\<close>.
\<close>

theorem save_throws_on_blank_endpoint:
  "\<exists>st1. handleEvent (RemoveStep 0) (loadedFlow [Some (endpointStep ''a''), Some (endpointStep ''b'')] []) =
           (Inr None, st1) \<and>
         flow st1 = [Some (createStep\<lparr>stepKind := Some ''endpoint''\<rparr>), Some (endpointStep ''b'')] \<and>
         fst (handleEvent Save st1) = Inl TypeError"
proof -
  let ?xs = "[Some (endpointStep ''a''), Some (endpointStep ''b'')]"
  let ?S = "loadedFlow ?xs []"
  let ?I = "\<lparr>steps = Some ?xs, tags = Some 0, other = []\<rparr>"
  let ?ys = "[Some (createStep\<lparr>stepKind := Some ''endpoint''\<rparr>), Some (endpointStep ''b'')]"
  let ?st1 = "?S\<lparr>priv_integration := Some (?I\<lparr>steps := Some ?ys\<rparr>)\<rparr>"
  have h: "priv_integration ?S = Some ?I" by (simp add: loadedFlow_def)
  have fl: "flow ?S = ?xs" by (simp add: flow_def loadedFlow_def)
  have "removeStep 0 ?S =
     (Inr (), ?S\<lparr>priv_integration :=
        Some (?I\<lparr>steps := Some (array_set (flow ?S) (nat 0) (createStep\<lparr>stepKind := Some ''endpoint''\<rparr>))\<rparr>)\<rparr>)"
    by (rule removeStep_boundary [OF h]) simp
  moreover have "array_set (flow ?S) (nat 0) (createStep\<lparr>stepKind := Some ''endpoint''\<rparr>) = ?ys"
    unfolding fl by (simp add: array_set_def)
  ultimately have ev: "handleEvent (RemoveStep 0) ?S = (Inr None, ?st1)"
    by (simp add: unit_result_def)
  have h1: "priv_integration ?st1 = Some (?I\<lparr>steps := Some ?ys\<rparr>)" by simp
  have fl1: "flow ?st1 = ?ys" by (simp add: flow_def)
  have "endpointIds ?st1 = Inl TypeError"
    unfolding endpointIds_def fl1
    by (simp add: array_filter_def List.map_filter_simps createStep_def)
  then have "fst (handleEvent Save ?st1) = Inl TypeError"
    using save_loaded [OF h1] by (simp add: handleEvent_Save)
  with ev fl1 show ?thesis by blast
qed
end
